theory Spec2Isabelle
  imports Main "HOL-Library.Multiset"
begin

section \<open>The block list of the GreenHat IP manager (\<^verbatim>\<open>src/iplist.js\<close>)\<close>

text \<open>
  The class \<^verbatim>\<open>IPList\<close> keeps an array \<^verbatim>\<open>items\<close> of block records. Every method
  that changes the array is modelled as a function from the array (an \<open>item list\<close>) to
  the new array. The array holds references to objects, and two positions can hold the
  same object: \<^verbatim>\<open>checkRedundancies\<close> and \<^verbatim>\<open>remove\<close> push an entry twice, and
  \<^verbatim>\<open>add\<close> restores an expired record by assigning to the object. The model keeps,
  at each position, the identity of the object (\<open>oid\<close>) together with its contents:
  two positions hold the same object exactly when they have the same \<open>oid\<close>, and then
  they have the same contents (\<open>wf_items\<close>, which every operation preserves), so the
  positions that hold an object are the positions equal to it. Writing the file
  (which, unless \<^verbatim>\<open>writeWorking\<close> is set, strips the derived range that reading the
  file computes again) and the messages of \<^verbatim>\<open>syslog\<close> are not modelled, except that
  the message tells which way \<^verbatim>\<open>add\<close> ended (the \<open>outcome\<close>). The clock
  (\<^verbatim>\<open>new Date()\<close>) is a parameter \<open>now\<close>, in milliseconds; \<^verbatim>\<open>dtAdded\<close> and
  \<^verbatim>\<open>dtExpired\<close>, ISO strings in the source, are the milliseconds they denote.
\<close>

subsection \<open>Records and configuration\<close>

record working_data =
  fromDec :: nat
  toDec :: nat

record item =
  oid :: nat
  ip :: string
  dtAdded :: int
  ports :: "string option"
  days :: "int option"
  country :: "string option"
  org :: "string option"
  reason :: "string option"
  status :: "int option"
  dtExpired :: "int option"
  working :: working_data

text \<open>The \<^verbatim>\<open>extra\<close> argument of \<^verbatim>\<open>add\<close>, with the keys its callers set.\<close>

record extra =
  x_dtAdded :: "int option"
  x_days :: "int option"
  x_country :: "string option"
  x_org :: "string option"
  x_reason :: "string option"

text \<open>One entry of \<^verbatim>\<open>cfg.ports\<close>, and the configuration \<^verbatim>\<open>cfg\<close>.\<close>

record portcfg =
  p_ports :: "nat list"
  p_days :: "int option"
  p_reason :: "int option"

record cfg =
  defaultBlockDays :: "int option"
  countryBlockDays :: "(string \<rightharpoonup> int) option"
  cfg_ports :: "string \<rightharpoonup> portcfg"
  reasons :: "string list"
  expireDeletes :: bool

text \<open>
  JavaScript truthiness of an optional string (\<^verbatim>\<open>undefined\<close>, \<^verbatim>\<open>null\<close> and the empty
  string are falsy) and of an optional number (absent and \<open>0\<close> are falsy). The loose
  equality \<^verbatim>\<open>==\<close> of two optional strings is the equality of \<open>string option\<close>
  (\<^verbatim>\<open>null == undefined\<close> holds, and neither equals a string).
\<close>

definition truthy_str :: "string option \<Rightarrow> bool" where
  "truthy_str v = (case v of None \<Rightarrow> False | Some s \<Rightarrow> s \<noteq> [])"

definition truthy_num :: "int option \<Rightarrow> bool" where
  "truthy_num v = (case v of None \<Rightarrow> False | Some n \<Rightarrow> n \<noteq> 0)"

datatype fault = TypeError

datatype outcome =
  UnknownPortGroup | UnknownReason | AlreadyPresent | AlreadyCovered | Inserted | Reactivated

subsection \<open>Strings, addresses and ranges\<close>

text \<open>\<^verbatim>\<open>String.prototype.split\<close> with a separator of one character.\<close>

fun split :: "char \<Rightarrow> string \<Rightarrow> string list" where
  "split c [] = [[]]"
| "split c (x # xs) =
     (if x = c then [] # split c xs
      else (case split c xs of [] \<Rightarrow> [[x]] | w # ws \<Rightarrow> (x # w) # ws))"

definition is_digit :: "char \<Rightarrow> bool" where
  "is_digit c = (48 \<le> (of_char c :: nat) \<and> (of_char c :: nat) \<le> 57)"

definition digit_val :: "char \<Rightarrow> nat" where
  "digit_val c = of_char c - 48"

fun dec_val :: "nat \<Rightarrow> string \<Rightarrow> nat" where
  "dec_val acc [] = acc"
| "dec_val acc (c # cs) = dec_val (acc * 10 + digit_val c) cs"

text \<open>
  \<^verbatim>\<open>Number(s)\<close> for a string of decimal digits (\<^verbatim>\<open>Number("")\<close> is \<open>0\<close>). For every
  other string the model returns \<open>None\<close>: it stands for \<^verbatim>\<open>NaN\<close>, and the other
  numeric notations of JavaScript are not modelled. The value is exact up to 15 digits;
  the comparator below builds 12.
\<close>

definition Number :: "string \<Rightarrow> nat option" where
  "Number s = (if list_all is_digit s then Some (dec_val 0 s) else None)"

text \<open>
  Modelled from the spec: the package \<^verbatim>\<open>ip-subnet-calculator\<close> is not part of the
  sources. \<open>parseOctet\<close> reads an octet in range 0-255, \<open>toDecimal\<close> the four octets
  of a dotted quad as an unsigned 32-bit integer, and \<open>calculateSubnetMask\<close> gives the
  first and the last address of the block with the given prefix length (0-32); \<open>None\<close>
  when the input does not decompose so.
\<close>

definition parseOctet :: "string \<Rightarrow> nat option" where
  "parseOctet s =
     (if s \<noteq> [] \<and> length s \<le> 3 \<and> list_all is_digit s \<and> dec_val 0 s \<le> 255
      then Some (dec_val 0 s) else None)"

definition toDecimal :: "string \<Rightarrow> nat option" where
  "toDecimal s =
     (case map parseOctet (split (CHR ''.'') s) of
        [Some a, Some b, Some c, Some d] \<Rightarrow> Some (((a * 256 + b) * 256 + c) * 256 + d)
      | _ \<Rightarrow> None)"

definition parsePrefix :: "string \<Rightarrow> nat option" where
  "parsePrefix s =
     (if s \<noteq> [] \<and> length s \<le> 2 \<and> list_all is_digit s \<and> dec_val 0 s \<le> 32
      then Some (dec_val 0 s) else None)"

definition calculateSubnetMask :: "string \<Rightarrow> string \<Rightarrow> working_data option" where
  "calculateSubnetMask a p =
     (case toDecimal a of
        None \<Rightarrow> None
      | Some n \<Rightarrow>
          (case parsePrefix p of
             None \<Rightarrow> None
           | Some k \<Rightarrow>
               let size = 2 ^ (32 - k); low = (n div size) * size
               in Some \<lparr>fromDec = low, toDec = low + size - 1\<rparr>))"

text \<open>\<^verbatim>\<open>WhoIsHelper.subnetMask\<close> (\<^verbatim>\<open>src/whoishelper.js\<close>).\<close>

definition subnetMask :: "string \<Rightarrow> working_data option" where
  "subnetMask a =
     (case split (CHR ''/'') (if CHR ''/'' \<notin> set a then a @ ''/32'' else a) of
        x # y # _ \<Rightarrow> calculateSubnetMask x y
      | _ \<Rightarrow> None)"

text \<open>
  \<^verbatim>\<open>_addWorking\<close>: the range of the item's address. When the package returns no
  result, reading \<^verbatim>\<open>sm.ipLowStr\<close> throws.
\<close>

definition ipUse :: "string \<Rightarrow> string" where
  "ipUse a = (if CHR ''/'' \<notin> set a then a @ ''/32'' else a)"

definition addWorking :: "item \<Rightarrow> fault + item" where
  "addWorking it =
     (case subnetMask (ipUse (ip it)) of
        None \<Rightarrow> Inl TypeError
      | Some w \<Rightarrow> Inr (it\<lparr>working := w\<rparr>))"

subsection \<open>The comparator and the sort\<close>

text \<open>\<^verbatim>\<open>(`000${num}`).slice(-3)\<close>: the last three characters.\<close>

definition pad3 :: "string \<Rightarrow> string" where
  "pad3 num = (let t = ''000'' @ num in drop (length t - 3) t)"

definition baseIP :: "string \<Rightarrow> string" where
  "baseIP a = (if CHR ''/'' \<in> set a then hd (split (CHR ''/'') a) else a)"

definition ipKey :: "string \<Rightarrow> nat option" where
  "ipKey a = Number (concat (map pad3 (split (CHR ''.'') (baseIP a))))"

text \<open>\<^verbatim>\<open>_sortIPCompare\<close> returns \<^verbatim>\<open>num1 - num2\<close>; \<open>None\<close> is \<^verbatim>\<open>NaN\<close>.\<close>

definition sortIPCompare :: "item \<Rightarrow> item \<Rightarrow> int option" where
  "sortIPCompare a b =
     (case (ipKey (ip a), ipKey (ip b)) of
        (Some num1, Some num2) \<Rightarrow> Some (int num1 - int num2)
      | _ \<Rightarrow> None)"

text \<open>
  \<^verbatim>\<open>Array.prototype.sort\<close> is stable and reads \<^verbatim>\<open>NaN\<close> as \<open>0\<close>: the sort is a
  stable insertion sort by the comparator. (With a comparator that is not consistent the
  order of the built-in is implementation-defined.)
\<close>

definition cmp_le :: "item \<Rightarrow> item \<Rightarrow> bool" where
  "cmp_le a b = (case sortIPCompare a b of None \<Rightarrow> True | Some d \<Rightarrow> d \<le> 0)"

fun insertItem :: "item \<Rightarrow> item list \<Rightarrow> item list" where
  "insertItem x [] = [x]"
| "insertItem x (y # ys) = (if cmp_le x y then x # y # ys else y # insertItem x ys)"

definition sortByIP :: "item list \<Rightarrow> item list" where
  "sortByIP xs = foldr insertItem xs []"

subsection \<open>Block days\<close>

definition getBlockDays :: "cfg \<Rightarrow> item \<Rightarrow> int" where
  "getBlockDays c it =
     (let blockdays = (if truthy_num (defaultBlockDays c) then the (defaultBlockDays c) else 0)
      in if truthy_num (days it) then the (days it)
         else if countryBlockDays c \<noteq> None \<and> truthy_str (country it)
                 \<and> truthy_num (the (countryBlockDays c) (the (country it)))
           then the (the (countryBlockDays c) (the (country it)))
         else if truthy_str (ports it) \<and> cfg_ports c (the (ports it)) \<noteq> None
                 \<and> truthy_num (p_days (the (cfg_ports c (the (ports it)))))
           then the (p_days (the (cfg_ports c (the (ports it)))))
         else blockdays)"

subsection \<open>Presence, redundancy and expired records\<close>

text \<open>
  \<^verbatim>\<open>isAlreadyPresent\<close> returns \<^verbatim>\<open>true\<close> from inside its loop, after one of two
  warnings: "already listed" (\<open>AlreadyPresent\<close>) or "already covered"
  (\<open>AlreadyCovered\<close>). The model returns which one, and \<open>None\<close> for \<^verbatim>\<open>false\<close>.
\<close>

fun isAlreadyPresent :: "item \<Rightarrow> item list \<Rightarrow> outcome option" where
  "isAlreadyPresent it [] = None"
| "isAlreadyPresent it (entry # rest) =
     (if truthy_num (status entry) then isAlreadyPresent it rest
      else if ip it = ip entry then
        (if (\<not> truthy_str (ports it) \<and> \<not> truthy_str (ports entry))
            \<or> ports it = ports entry
            \<or> (truthy_str (ports it) \<and> \<not> truthy_str (ports entry))
         then Some AlreadyPresent
         else isAlreadyPresent it rest)
      else if fromDec (working it) \<ge> fromDec (working entry)
              \<and> toDec (working it) \<le> toDec (working entry)
        then Some AlreadyCovered
      else isAlreadyPresent it rest)"

text \<open>
  \<^verbatim>\<open>checkRedundancies\<close> builds the new array \<^verbatim>\<open>filtered\<close>. An entry with a status
  is pushed first, and the loop body goes on with the same entry.
\<close>

fun checkRedundancies :: "item \<Rightarrow> item list \<Rightarrow> item list" where
  "checkRedundancies it [] = []"
| "checkRedundancies it (entry # rest) =
     (if truthy_num (status entry) then [entry] else [])
     @ (if ip it = ip entry then []
        else if fromDec (working it) \<le> fromDec (working entry)
                \<and> toDec (working it) \<ge> toDec (working entry)
          then (if ports it = None \<or> ports it = ports entry then [] else [entry])
        else [entry])
     @ checkRedundancies it rest"

text \<open>\<^verbatim>\<open>checkExpired\<close>: the index of the first expired record to restore (\<open>None\<close> for \<open>-1\<close>).\<close>

fun checkExpired_from :: "nat \<Rightarrow> item list \<Rightarrow> string \<Rightarrow> string option \<Rightarrow> nat option" where
  "checkExpired_from i [] a p = None"
| "checkExpired_from i (it # rest) a p =
     (if truthy_num (status it) \<and> status it = Some 1 \<and> a = ip it then
        (if (truthy_str p \<and> \<not> truthy_str (ports it)) \<or> (\<not> truthy_str p \<and> truthy_str (ports it))
         then checkExpired_from (Suc i) rest a p
         else if (truthy_str (ports it) \<and> truthy_str p \<and> ports it = p)
                 \<or> (\<not> truthy_str p \<and> \<not> truthy_str (ports it))
           then Some i
         else checkExpired_from (Suc i) rest a p)
      else checkExpired_from (Suc i) rest a p)"

definition checkExpired :: "item list \<Rightarrow> string \<Rightarrow> string option \<Rightarrow> nat option" where
  "checkExpired items a p = checkExpired_from 0 items a p"

subsection \<open>Adding an address\<close>

text \<open>
  Lines 304-351 of \<^verbatim>\<open>add\<close> build the candidate record and do not touch the array:
  \<open>Inl\<close> is an exception thrown, \<open>Inr (Inl oc)\<close> an early \<^verbatim>\<open>return\<close> after an error
  message, \<open>Inr (Inr it)\<close> the candidate. \<^verbatim>\<open>extra\<close> is \<open>None\<close> when the argument is
  absent (its default is \<^verbatim>\<open>null\<close>); \<^verbatim>\<open>extra.dtAdded\<close> is read first. The candidate
  is not in the array yet: its \<open>oid\<close> is set when it is pushed.
\<close>

definition keep_str :: "string option \<Rightarrow> string option" where
  "keep_str v = (if truthy_str v then v else None)"

definition keep_num :: "int option \<Rightarrow> int option" where
  "keep_num v = (if truthy_num v then v else None)"

definition reasonAt :: "string list \<Rightarrow> int \<Rightarrow> string option" where
  "reasonAt rs i = (if 0 \<le> i \<and> nat i < length rs then Some (rs ! nat i) else None)"

text \<open>
  Lines 319-327: the reason index of the port group, \<open>- 1\<close> when there is none;
  \<open>None\<close> is the \<^verbatim>\<open>return\<close> after "No ports definition found".
\<close>

definition portsReason :: "cfg \<Rightarrow> string option \<Rightarrow> int option" where
  "portsReason c p =
     (if truthy_str p then
        (case cfg_ports c (the p) of
           None \<Rightarrow> None
         | Some pc \<Rightarrow> Some (if truthy_num (p_reason pc) then the (p_reason pc) else - 1))
      else Some (- 1))"

text \<open>
  Lines 333-340: \<^verbatim>\<open>extra.reason\<close> afterwards; \<open>None\<close> is the \<^verbatim>\<open>return\<close> after
  "No reason with index".
\<close>

definition extraReason :: "cfg \<Rightarrow> int \<Rightarrow> extra \<Rightarrow> string option option" where
  "extraReason c pReason ex =
     (if pReason \<noteq> - 1 \<and> \<not> truthy_str (x_reason ex) then
        (if \<not> truthy_str (reasonAt (reasons c) pReason) then None
         else Some (reasonAt (reasons c) pReason))
      else Some (x_reason ex))"

definition makeItem ::
  "cfg \<Rightarrow> int \<Rightarrow> string \<Rightarrow> string option \<Rightarrow> extra option \<Rightarrow> fault + (outcome + item)" where
  "makeItem c now a p extra =
     (case extra of
        None \<Rightarrow> Inl TypeError
      | Some ex \<Rightarrow>
          (case portsReason c p of
             None \<Rightarrow> Inr (Inl UnknownPortGroup)
           | Some pReason \<Rightarrow>
               (case extraReason c pReason ex of
                  None \<Rightarrow> Inr (Inl UnknownReason)
                | Some rsn \<Rightarrow>
                    (case addWorking
                            \<lparr>oid = 0, ip = a,
                             dtAdded = (case x_dtAdded ex of Some d \<Rightarrow> d | None \<Rightarrow> now),
                             ports = p, days = keep_num (x_days ex),
                             country = keep_str (x_country ex), org = keep_str (x_org ex),
                             reason = keep_str rsn, status = None, dtExpired = None,
                             working = \<lparr>fromDec = 0, toDec = 0\<rparr>\<rparr> of
                       Inl f \<Rightarrow> Inl f
                     | Inr it \<Rightarrow> Inr (Inr it)))))"

text \<open>
  Restoring an expired record: \<^verbatim>\<open>status\<close>, \<^verbatim>\<open>dtExpired\<close> and \<^verbatim>\<open>days\<close> are deleted,
  then every key of the candidate is copied over the record. The candidate has the keys
  \<^verbatim>\<open>ip\<close>, \<^verbatim>\<open>dtAdded\<close> and \<^verbatim>\<open>working\<close>, \<^verbatim>\<open>ports\<close> unless it is \<^verbatim>\<open>null\<close>, and the
  truthy keys of \<^verbatim>\<open>extra\<close>. The object stays the same (\<open>oid\<close>), and
  \<open>updateObject\<close> shows its new contents at every position that holds it.
\<close>

definition over :: "'a option \<Rightarrow> 'a option \<Rightarrow> 'a option" where
  "over new old = (case new of None \<Rightarrow> old | Some v \<Rightarrow> Some v)"

definition restore :: "item \<Rightarrow> item \<Rightarrow> item" where
  "restore old it =
     \<lparr>oid = oid old, ip = ip it, dtAdded = dtAdded it, ports = over (ports it) (ports old),
      days = days it, country = over (country it) (country old),
      org = over (org it) (org old), reason = over (reason it) (reason old),
      status = None, dtExpired = None, working = working it\<rparr>"

definition updateObject :: "item \<Rightarrow> item \<Rightarrow> item list \<Rightarrow> item list" where
  "updateObject old new items = map (\<lambda>x. if x = old then new else x) items"

text \<open>The identity of a new object: one that no position of the array holds.\<close>

definition newOid :: "item list \<Rightarrow> nat" where
  "newOid items = fold max (map oid items) 0 + 1"

text \<open>
  Lines 353-378 of \<^verbatim>\<open>add\<close>, for a candidate \<open>it\<close> built from \<open>a\<close> and \<open>p\<close>;
  \<open>finish\<close> is the sort at the end, which an import leaves to its caller.
\<close>

definition finish :: "bool \<Rightarrow> item list \<Rightarrow> item list" where
  "finish imp items = (if imp then items else sortByIP items)"

definition addItem ::
  "item list \<Rightarrow> string \<Rightarrow> string option \<Rightarrow> item \<Rightarrow> bool \<Rightarrow> outcome \<times> item list" where
  "addItem items a p it imp =
     (case isAlreadyPresent it items of
        Some oc \<Rightarrow> (oc, items)
      | None \<Rightarrow>
          let filtered = checkRedundancies it items;
              (oc, items') =
                (case checkExpired filtered a p of
                   None \<Rightarrow> (Inserted, filtered @ [it\<lparr>oid := newOid items\<rparr>])
                 | Some expChk \<Rightarrow>
                     (Reactivated,
                      updateObject (filtered ! expChk) (restore (filtered ! expChk) it)
                        filtered))
          in (oc, finish imp items'))"

definition add ::
  "cfg \<Rightarrow> int \<Rightarrow> item list \<Rightarrow> string \<Rightarrow> string option \<Rightarrow> extra option \<Rightarrow> bool
     \<Rightarrow> fault + (outcome \<times> item list)" where
  "add c now items a p extra imp =
     (case makeItem c now a p extra of
        Inl f \<Rightarrow> Inl f
      | Inr (Inl oc) \<Rightarrow> Inr (oc, items)
      | Inr (Inr it) \<Rightarrow> Inr (addItem items a p it imp))"

subsection \<open>Removing an address and expiring records\<close>

text \<open>\<^verbatim>\<open>remove\<close>: the loop gives \<^verbatim>\<open>newList\<close> and \<^verbatim>\<open>found\<close>.\<close>

fun remove_loop :: "string \<Rightarrow> string option \<Rightarrow> item list \<Rightarrow> item list \<times> bool" where
  "remove_loop a p [] = ([], False)"
| "remove_loop a p (it # rest) =
     (let (newList, found) = remove_loop a p rest;
          pushed = (if truthy_num (status it) then [it] else [])
      in if ip it = a then
           (if (\<not> truthy_str p \<and> \<not> truthy_str (ports it)) \<or> (truthy_str (ports it) \<and> p = ports it)
            then (pushed @ newList, True)
            else (pushed @ [it] @ newList, found))
         else (pushed @ [it] @ newList, found))"

definition remove_ip :: "item list \<Rightarrow> string \<Rightarrow> string option \<Rightarrow> bool \<times> item list" where
  "remove_ip items a p =
     (let (newList, found) = remove_loop a p items
      in if found then (True, newList) else (False, items))"

text \<open>
  \<^verbatim>\<open>removeExpired\<close>: the loop gives \<^verbatim>\<open>newList\<close> and the count \<^verbatim>\<open>rem\<close>, which the
  source prints. The model returns the count with the new array. The loop assigns
  \<^verbatim>\<open>status\<close> and \<^verbatim>\<open>dtExpired\<close> to the object; its test reads neither, so every
  position that holds the object meets the same test and the same assignment.
\<close>

fun removeExpired_loop :: "cfg \<Rightarrow> int \<Rightarrow> item list \<Rightarrow> item list \<times> nat" where
  "removeExpired_loop c now [] = ([], 0)"
| "removeExpired_loop c now (it # rest) =
     (let (newList, rem) = removeExpired_loop c now rest;
          blockdays = getBlockDays c it
      in if blockdays = 0 then (it # newList, rem)
         else if now - dtAdded it < 86400000 * blockdays then (it # newList, rem)
         else ((if \<not> expireDeletes c then [it\<lparr>status := Some 1, dtExpired := Some now\<rparr>] else [])
               @ newList, rem + 1))"

definition removeExpired :: "cfg \<Rightarrow> int \<Rightarrow> item list \<Rightarrow> nat \<times> item list" where
  "removeExpired c now items =
     (let (newList, rem) = removeExpired_loop c now items
      in if rem > 0 then (rem, newList) else (0, items))"

subsection \<open>The words of the specification\<close>

text \<open>
  A record is active when it has no (truthy) status and expired when its status is \<open>1\<close>,
  the value \<^verbatim>\<open>removeExpired\<close> sets. \<open>range_contains outer inner\<close> is the containment
  of section 4.1, \<open>compatible\<close> the compatibility of the presence check (the candidate's
  scope first) and \<open>same_scope\<close> the exact equality of two scopes. A scope is absent when
  it is not truthy: there is none, or it is the empty string. \<open>superseded it e\<close> is the
  condition of the redundancy elimination on a record \<open>e\<close>, for the candidate \<open>it\<close>.
\<close>

definition active :: "item \<Rightarrow> bool" where
  "active e = (\<not> truthy_num (status e))"

definition expired :: "item \<Rightarrow> bool" where
  "expired e = (status e = Some 1)"

definition range_contains :: "working_data \<Rightarrow> working_data \<Rightarrow> bool" where
  "range_contains outer inner =
     (fromDec outer \<le> fromDec inner \<and> toDec inner \<le> toDec outer)"

definition compatible :: "string option \<Rightarrow> string option \<Rightarrow> bool" where
  "compatible cand existing =
     ((\<not> truthy_str cand \<and> \<not> truthy_str existing) \<or> cand = existing
      \<or> (truthy_str cand \<and> \<not> truthy_str existing))"

definition same_scope :: "string option \<Rightarrow> string option \<Rightarrow> bool" where
  "same_scope cand existing =
     ((\<not> truthy_str cand \<and> \<not> truthy_str existing) \<or> (truthy_str cand \<and> cand = existing))"

definition superseded :: "item \<Rightarrow> item \<Rightarrow> bool" where
  "superseded it e =
     (range_contains (working it) (working e) \<and> (ports it = None \<or> ports it = ports e))"


text \<open>
  The time to live as the specification words it, with "configured" read as the source
  does: a value that is not zero.
\<close>

definition nonzero :: "int option \<Rightarrow> int option" where
  "nonzero v = (case v of None \<Rightarrow> None | Some n \<Rightarrow> if n = 0 then None else Some n)"

definition countryTTL :: "cfg \<Rightarrow> item \<Rightarrow> int option" where
  "countryTTL c it =
     (case countryBlockDays c of
        None \<Rightarrow> None
      | Some m \<Rightarrow>
          (case country it of
             None \<Rightarrow> None
           | Some k \<Rightarrow> if k = [] then None else nonzero (m k)))"

definition portTTL :: "cfg \<Rightarrow> item \<Rightarrow> int option" where
  "portTTL c it =
     (case ports it of
        None \<Rightarrow> None
      | Some g \<Rightarrow>
          if g = [] then None
          else (case cfg_ports c g of None \<Rightarrow> None | Some pc \<Rightarrow> nonzero (p_days pc)))"

definition resolveTTLDays :: "cfg \<Rightarrow> item \<Rightarrow> int" where
  "resolveTTLDays c it =
     (case nonzero (days it) of
        Some d \<Rightarrow> d
      | None \<Rightarrow>
          (case countryTTL c it of
             Some d \<Rightarrow> d
           | None \<Rightarrow>
               (case portTTL c it of
                  Some d \<Rightarrow> d
                | None \<Rightarrow> (case defaultBlockDays c of Some d \<Rightarrow> d | None \<Rightarrow> 0))))"

text \<open>The address of a record as an unsigned 32-bit integer, when it is a valid one.\<close>

definition ip32 :: "item \<Rightarrow> nat option" where
  "ip32 e = toDecimal (baseIP (ip e))"

text \<open>The array is well formed: positions with the same \<open>oid\<close> have the same contents.\<close>

definition wf_items :: "item list \<Rightarrow> bool" where
  "wf_items items = (\<forall>e\<in>set items. \<forall>e'\<in>set items. oid e = oid e' \<longrightarrow> e = e')"

subsection \<open>Concrete configurations and records\<close>

definition cfg0 :: cfg where
  "cfg0 = \<lparr>defaultBlockDays = None, countryBlockDays = None,
           cfg_ports = [''ssh'' \<mapsto> \<lparr>p_ports = [22], p_days = None, p_reason = None\<rparr>],
           reasons = [], expireDeletes = False\<rparr>"

definition ex0 :: extra where
  "ex0 = \<lparr>x_dtAdded = None, x_days = None, x_country = None, x_org = None, x_reason = None\<rparr>"

definition rec :: "nat \<Rightarrow> string \<Rightarrow> int \<Rightarrow> string option \<Rightarrow> nat \<Rightarrow> nat \<Rightarrow> item" where
  "rec n a t p lo hi =
     \<lparr>oid = n, ip = a, dtAdded = t, ports = p, days = None, country = None, org = None,
      reason = None, status = None, dtExpired = None,
      working = \<lparr>fromDec = lo, toDec = hi\<rparr>\<rparr>"

section \<open>Properties\<close>

subsection \<open>The candidate record\<close>

lemma makeItem_Inr_iff:
  "makeItem c now a p extra = Inr (Inr it) \<longleftrightarrow>
     (\<exists>ex pr rsn w. extra = Some ex \<and> portsReason c p = Some pr \<and> extraReason c pr ex = Some rsn
        \<and> subnetMask (ipUse a) = Some w
        \<and> it = \<lparr>oid = 0, ip = a, dtAdded = (case x_dtAdded ex of Some d \<Rightarrow> d | None \<Rightarrow> now), ports = p,
               days = keep_num (x_days ex), country = keep_str (x_country ex),
               org = keep_str (x_org ex), reason = keep_str rsn, status = None,
               dtExpired = None, working = w\<rparr>)"
proof (cases extra)
  case None
  then show ?thesis by (simp add: makeItem_def)
next
  case ex: (Some ex)
  show ?thesis
  proof (cases "portsReason c p")
    case None
    with ex show ?thesis by (simp add: makeItem_def)
  next
    case pr: (Some pr)
    show ?thesis
    proof (cases "extraReason c pr ex")
      case None
      with ex pr show ?thesis by (simp add: makeItem_def)
    next
      case rsn: (Some rsn)
      show ?thesis
      proof (cases "subnetMask (ipUse a)")
        case None
        with ex pr rsn show ?thesis by (simp add: makeItem_def addWorking_def)
      next
        case (Some w)
        with ex pr rsn show ?thesis by (auto simp add: makeItem_def addWorking_def)
      qed
    qed
  qed
qed

lemma makeItem_fields:
  assumes "makeItem c now a p extra = Inr (Inr it)"
  shows "ip it = a" and "ports it = p" and "status it = None" and "dtExpired it = None"
  using assms unfolding makeItem_Inr_iff by auto

lemma makeItem_active:
  assumes "makeItem c now a p extra = Inr (Inr it)"
  shows "active it"
  using makeItem_fields(3) [OF assms] by (simp add: active_def truthy_num_def)


lemma makeItem_stopped:
  assumes "makeItem c now a p extra = Inr (Inl oc)"
  shows "oc = UnknownPortGroup \<or> oc = UnknownReason"
  using assms
  by (auto simp: makeItem_def split: option.splits sum.splits)

subsection \<open>The presence check\<close>



lemma isAlreadyPresent_range:
  "isAlreadyPresent it xs = None \<or> isAlreadyPresent it xs = Some AlreadyPresent
     \<or> isAlreadyPresent it xs = Some AlreadyCovered"
  by (induction xs) simp_all



lemma isAlreadyPresent_covered:
  assumes "\<forall>x\<in>set xs. active x \<longrightarrow> ip x \<noteq> ip it"
    and "e \<in> set xs" and "active e" and "range_contains (working e) (working it)"
  shows "isAlreadyPresent it xs = Some AlreadyCovered"
  using assms
proof (induction xs)
  case Nil
  then show ?case by simp
next
  case (Cons x xs)
  show ?case
  proof (cases "e = x")
    case True
    with Cons.prems show ?thesis
      by (auto simp: active_def range_contains_def)
  next
    case False
    with Cons have "isAlreadyPresent it xs = Some AlreadyCovered" by auto
    with Cons.prems(1) show ?thesis
      by (auto simp: active_def)
  qed
qed



subsection \<open>Redundant and expired records\<close>

lemma count_list_filter:
  assumes "P e"
  shows "count_list (filter P xs) e = count_list xs e"
  using assms by (induction xs) auto

lemma checkRedundancies_subset:
  "set (checkRedundancies it xs) \<subseteq> set xs"
  by (induction xs) auto

lemma checkRedundancies_member:
  assumes "e \<in> set (checkRedundancies it xs)"
  shows "\<not> active e \<or> (ip e \<noteq> ip it \<and> \<not> superseded it e)"
  using assms
  by (induction xs) (auto simp: active_def superseded_def range_contains_def split: if_splits)

lemma checkRedundancies_keeps_inactive:
  assumes "e \<in> set xs" and "\<not> active e"
  shows "e \<in> set (checkRedundancies it xs)"
  using assms by (induction xs) (auto simp: active_def)

lemma checkRedundancies_filter_kept:
  "filter (\<lambda>e. active e \<and> ip e \<noteq> ip it \<and> \<not> superseded it e) (checkRedundancies it xs)
     = filter (\<lambda>e. active e \<and> ip e \<noteq> ip it \<and> \<not> superseded it e) xs"
  by (induction xs) (auto simp: active_def superseded_def range_contains_def)

lemma checkRedundancies_filter_ip:
  "filter (\<lambda>e. ip e = ip it) (checkRedundancies it xs)
     = filter (\<lambda>e. ip e = ip it \<and> \<not> active e) xs"
  by (induction xs) (auto simp: active_def)

lemma checkRedundancies_count_same_ip:
  assumes "ip e = ip it" and "\<not> active e"
  shows "count_list (checkRedundancies it xs) e = count_list xs e"
proof -
  have "count_list (checkRedundancies it xs) e
      = count_list (filter (\<lambda>e. ip e = ip it) (checkRedundancies it xs)) e"
    using count_list_filter [of "\<lambda>e. ip e = ip it" e] assms(1) by simp
  also have "\<dots> = count_list (filter (\<lambda>e. ip e = ip it \<and> \<not> active e) xs) e"
    by (simp only: checkRedundancies_filter_ip)
  also have "\<dots> = count_list xs e"
    using count_list_filter [of "\<lambda>e. ip e = ip it \<and> \<not> active e" e] assms by simp
  finally show ?thesis .
qed

lemma filtered_no_active_same_ip:
  assumes "e \<in> set (checkRedundancies it items)" and "ip e = ip it"
  shows "\<not> active e"
  using checkRedundancies_member [OF assms(1)] assms(2) by auto

lemma expired_not_active:
  assumes "expired e"
  shows "\<not> active e"
  using assms by (simp add: expired_def active_def truthy_num_def)

lemma checkExpired_from_ge:
  assumes "checkExpired_from k xs a p = Some i"
  shows "k \<le> i"
  using assms
proof (induction xs arbitrary: k)
  case Nil
  then show ?case by simp
next
  case (Cons x xs)
  then show ?case
    by (fastforce split: if_splits dest: Suc_leD)
qed

lemma checkExpired_from_Some:
  assumes "checkExpired_from k xs a p = Some i"
  shows "i - k < length xs \<and> expired (xs ! (i - k)) \<and> ip (xs ! (i - k)) = a
           \<and> same_scope p (ports (xs ! (i - k)))"
  using assms
proof (induction xs arbitrary: k)
  case Nil
  then show ?case by simp
next
  case (Cons x xs)
  show ?case
  proof (cases "i = k")
    case True
    have "checkExpired_from (Suc k) xs a p \<noteq> Some k"
      using checkExpired_from_ge [of "Suc k" xs a p k] by auto
    with True Cons.prems show ?thesis
      by (auto simp: expired_def same_scope_def split: if_splits)
  next
    case False
    with Cons.prems have rest: "checkExpired_from (Suc k) xs a p = Some i"
      by (auto split: if_splits)
    from checkExpired_from_ge [OF rest] have "i - k = Suc (i - Suc k)" by simp
    with Cons.IH [OF rest] show ?thesis by simp
  qed
qed

lemma checkExpired_Some:
  assumes "checkExpired xs a p = Some i"
  shows "i < length xs" and "expired (xs ! i)" and "ip (xs ! i) = a" and "same_scope p (ports (xs ! i))"
  using checkExpired_from_Some [of 0 xs a p i] assms by (simp_all add: checkExpired_def)


lemma restore_fields:
  "ip (restore old it) = ip it" "status (restore old it) = None"
  "dtExpired (restore old it) = None" "days (restore old it) = days it"
  "dtAdded (restore old it) = dtAdded it" "working (restore old it) = working it"
  "ports (restore old it) = over (ports it) (ports old)" "oid (restore old it) = oid old"
  by (simp_all add: restore_def)

lemma restore_active: "active (restore old it)"
  by (simp add: active_def restore_def truthy_num_def)

lemma over_same_scope:
  assumes "same_scope p q"
  shows "same_scope p (over p q)" and "compatible p (over p q)"
  using assms
  by (auto simp: same_scope_def compatible_def over_def truthy_str_def split: option.splits)

subsection \<open>Objects, the sort and the end of \<^verbatim>\<open>add\<close>\<close>

lemma updateObject_facts:
  "length (updateObject old new xs) = length xs"
  "set (updateObject old new xs) \<subseteq> insert new (set xs)"
  "old \<in> set xs \<Longrightarrow> new \<in> set (updateObject old new xs)"
  "old \<noteq> new \<Longrightarrow> old \<notin> set (updateObject old new xs)"
  "e \<in> set xs \<Longrightarrow> e \<noteq> old \<Longrightarrow> e \<in> set (updateObject old new xs)"
  by (auto simp: updateObject_def)


lemma filter_updateObject_count:
  assumes "\<forall>e\<in>set xs. \<not> P e" and "P new"
  shows "length (filter P (updateObject old new xs)) = count_list xs old"
  using assms by (induction xs) (auto simp: updateObject_def)

lemma count_list_updateObject_other:
  assumes "e \<noteq> old" and "e \<noteq> new"
  shows "count_list (updateObject old new xs) e = count_list xs e"
  using assms by (induction xs) (auto simp: updateObject_def)


lemma fold_max_ge:
  fixes ns :: "nat list"
  shows "m \<le> fold max ns m \<and> (\<forall>n\<in>set ns. n \<le> fold max ns m)"
proof (induction ns arbitrary: m)
  case Nil
  then show ?case by simp
next
  case (Cons n ns)
  from Cons.IH [of "max n m"] show ?case by auto
qed

lemma newOid_fresh:
  assumes "e \<in> set items"
  shows "oid e < newOid items"
  using fold_max_ge [of 0 "map oid items"] assms by (auto simp: newOid_def less_Suc_eq_le)

lemma mset_insertItem: "mset (insertItem x xs) = add_mset x (mset xs)"
  by (induction xs) auto

lemma mset_sortByIP: "mset (sortByIP xs) = mset xs"
  unfolding sortByIP_def by (induction xs) (auto simp: mset_insertItem)

lemma set_sortByIP: "set (sortByIP xs) = set xs"
  using mset_sortByIP [of xs] by (metis set_mset_mset)

lemma set_insertItem: "set (insertItem x xs) = insert x (set xs)"
  using mset_insertItem [of x xs] by (metis set_mset_add_mset_insert set_mset_mset)

lemma length_filter_sortByIP: "length (filter P (sortByIP xs)) = length (filter P xs)"
  using mset_sortByIP [of xs] by (metis mset_filter size_mset)

lemma count_sortByIP: "count_list (sortByIP xs) e = count_list xs e"
  using mset_sortByIP [of xs] by (metis count_mset)

lemma set_finish: "set (finish imp xs) = set xs"
  by (simp add: finish_def set_sortByIP)

lemma length_filter_finish: "length (filter P (finish imp xs)) = length (filter P xs)"
  by (simp add: finish_def length_filter_sortByIP)

lemma count_finish: "count_list (finish imp xs) e = count_list xs e"
  by (simp add: finish_def count_sortByIP)


subsection \<open>The ways \<^verbatim>\<open>add\<close> ends\<close>

lemma add_makeItem:
  assumes "makeItem c now a p extra = Inr (Inr it)"
  shows "add c now items a p extra imp = Inr (addItem items a p it imp)"
  using assms by (simp add: add_def)

lemma add_success_makeItem:
  assumes "add c now items a p extra imp = Inr (oc, items')"
    and "oc = Inserted \<or> oc = Reactivated"
  obtains it where "makeItem c now a p extra = Inr (Inr it)"
  using assms makeItem_stopped [of c now a p extra oc]
  by (auto simp: add_def split: sum.splits)

lemma addItem_rejected:
  assumes "isAlreadyPresent it items = Some oc"
  shows "addItem items a p it imp = (oc, items)"
  using assms by (simp add: addItem_def)

lemma addItem_inserted:
  assumes "isAlreadyPresent it items = None"
    and "checkExpired (checkRedundancies it items) a p = None"
  shows "addItem items a p it imp = (Inserted, finish imp (checkRedundancies it items @ [it\<lparr>oid := newOid items\<rparr>]))"
  using assms by (simp add: addItem_def)

lemma addItem_reactivated:
  assumes "isAlreadyPresent it items = None"
    and "checkExpired (checkRedundancies it items) a p = Some i"
  shows "addItem items a p it imp =
           (Reactivated,
            finish imp (updateObject (checkRedundancies it items ! i)
                          (restore (checkRedundancies it items ! i) it) (checkRedundancies it items)))"
  using assms by (simp add: addItem_def Let_def)


lemma addItem_success:
  assumes "addItem items a p it imp = (oc, items')" and "oc = Inserted \<or> oc = Reactivated"
  shows "isAlreadyPresent it items = None"
    and "(oc = Inserted \<and> checkExpired (checkRedundancies it items) a p = None
            \<and> items' = finish imp (checkRedundancies it items @ [it\<lparr>oid := newOid items\<rparr>]))
         \<or> (\<exists>i. oc = Reactivated \<and> checkExpired (checkRedundancies it items) a p = Some i
               \<and> items' = finish imp (updateObject (checkRedundancies it items ! i)
                   (restore (checkRedundancies it items ! i) it) (checkRedundancies it items)))"
proof -
  show none: "isAlreadyPresent it items = None"
  proof (rule ccontr)
    assume "isAlreadyPresent it items \<noteq> None"
    then obtain r where r: "isAlreadyPresent it items = Some r" by auto
    with isAlreadyPresent_range [of it items] have "r = AlreadyPresent \<or> r = AlreadyCovered"
      by auto
    with addItem_rejected [OF r, of a p imp] assms show False by auto
  qed
  show "(oc = Inserted \<and> checkExpired (checkRedundancies it items) a p = None
            \<and> items' = finish imp (checkRedundancies it items @ [it\<lparr>oid := newOid items\<rparr>]))
         \<or> (\<exists>i. oc = Reactivated \<and> checkExpired (checkRedundancies it items) a p = Some i
               \<and> items' = finish imp (updateObject (checkRedundancies it items ! i)
                   (restore (checkRedundancies it items ! i) it) (checkRedundancies it items)))"
  proof (cases "checkExpired (checkRedundancies it items) a p")
    case None
    from addItem_inserted [OF none None, of imp] assms(1) None show ?thesis by simp
  next
    case (Some i)
    from addItem_reactivated [OF none Some, of imp] assms(1) Some show ?thesis by simp
  qed
qed

lemma addItem_success_cases:
  assumes "addItem items a p it imp = (oc, items')" and "oc = Inserted \<or> oc = Reactivated"
  obtains (ins) "oc = Inserted" and "checkExpired (checkRedundancies it items) a p = None"
      and "items' = finish imp (checkRedundancies it items @ [it\<lparr>oid := newOid items\<rparr>])"
    | (rea) i where "oc = Reactivated"
      and "checkExpired (checkRedundancies it items) a p = Some i"
      and "items' = finish imp (updateObject (checkRedundancies it items ! i)
                   (restore (checkRedundancies it items ! i) it) (checkRedundancies it items))"
  using addItem_success(2) [OF assms] by (elim disjE exE conjE) simp_all

text \<open>What a successful insertion leaves in the collection.\<close>

lemma addItem_success_parts:
  assumes ok: "addItem items a p it imp = (oc, items')"
    and oc: "oc = Inserted \<or> oc = Reactivated"
    and it: "ip it = a" "ports it = p" "active it"
  shows "\<exists>r. active r \<and> ip r = a \<and> compatible p (ports r) \<and> same_scope p (ports r)
              \<and> working r = working it \<and> dtAdded r = dtAdded it \<and> days r = days it
              \<and> set items' \<subseteq> insert r (set (checkRedundancies it items))
              \<and> r \<in> set items'
              \<and> (\<forall>e\<in>set items'. active e \<and> ip e = a \<longrightarrow> e = r)
              \<and> (oc = Inserted \<longrightarrow>
                    r = it\<lparr>oid := newOid items\<rparr>
                    \<and> length (filter (\<lambda>e. active e \<and> ip e = a) items') = 1)
              \<and> (oc = Reactivated \<longrightarrow>
                    (\<exists>old\<in>set items. expired old \<and> ip old = a \<and> same_scope p (ports old)
                       \<and> oid r = oid old
                       \<and> length (filter (\<lambda>e. active e \<and> ip e = a) items')
                           = count_list items old))"
proof -
  let ?f = "checkRedundancies it items"
  let ?P = "\<lambda>e. active e \<and> ip e = a"
  have noP: "\<forall>e\<in>set ?f. \<not> ?P e"
    using filtered_no_active_same_ip [of _ it items] it(1) by auto
  from ok oc show ?thesis
  proof (cases rule: addItem_success_cases)
    case ins
    let ?r = "it\<lparr>oid := newOid items\<rparr>"
    have "filter ?P ?f = []" using noP by (auto simp: filter_empty_conv)
    then have one: "length (filter ?P items') = 1"
      using it ins(3) by (simp add: length_filter_finish active_def)
    have sc: "same_scope p (ports ?r)" "compatible p (ports ?r)"
      using it(2) by (auto simp: same_scope_def compatible_def)
    have sub: "set items' \<subseteq> insert ?r (set ?f)" and mem: "?r \<in> set items'"
      using ins(3) by (auto simp: set_finish)
    have all: "\<forall>e\<in>set items'. active e \<and> ip e = a \<longrightarrow> e = ?r"
      using sub noP by auto
    have basics: "active ?r" "ip ?r = a" "working ?r = working it" "dtAdded ?r = dtAdded it"
      "days ?r = days it"
      using it by (simp_all add: active_def)
    have I: "oc = Inserted \<longrightarrow> ?r = it\<lparr>oid := newOid items\<rparr>
        \<and> length (filter ?P items') = 1"
      using one by simp
    have R: "oc = Reactivated \<longrightarrow>
        (\<exists>old\<in>set items. expired old \<and> ip old = a \<and> same_scope p (ports old)
           \<and> oid ?r = oid old \<and> length (filter ?P items') = count_list items old)"
      using ins(1) by simp
    from basics sc sub mem all I R show ?thesis by blast
  next
    case (rea i)
    let ?old = "?f ! i"
    let ?r = "restore ?old it"
    from checkExpired_Some [OF rea(2)]
    have i: "i < length ?f" and ex: "expired ?old" and ipo: "ip ?old = a"
      and sc: "same_scope p (ports ?old)" by auto
    from i have oldf: "?old \<in> set ?f" by simp
    with checkRedundancies_subset have oldi: "?old \<in> set items" by blast
    have "length (filter ?P (updateObject ?old ?r ?f)) = count_list ?f ?old"
      using noP it(1) by (intro filter_updateObject_count) (auto simp: restore_active restore_fields)
    also have "\<dots> = count_list items ?old"
      using ipo it(1) ex by (intro checkRedundancies_count_same_ip) (simp_all add: expired_not_active)
    finally have cnt: "length (filter ?P items') = count_list items ?old"
      using rea(3) by (simp add: length_filter_finish)
    have sub: "set items' \<subseteq> insert ?r (set ?f)"
      using rea(3) updateObject_facts(2) [of ?old ?r ?f] by (simp add: set_finish)
    have mem: "?r \<in> set items'"
      using rea(3) updateObject_facts(3) [OF oldf, of ?r] by (simp add: set_finish)
    have all: "\<forall>e\<in>set items'. active e \<and> ip e = a \<longrightarrow> e = ?r"
      using sub noP by auto
    have ps: "ports ?r = over p (ports ?old)"
      using it(2) by (simp add: restore_fields)
    have old: "\<exists>old\<in>set items. expired old \<and> ip old = a \<and> same_scope p (ports old)
        \<and> oid ?r = oid old
        \<and> length (filter ?P items') = count_list items old"
      using oldi ex ipo sc cnt by (intro bexI [of _ ?old]) (simp_all add: restore_fields)
    have basics: "active ?r" "ip ?r = a" "working ?r = working it" "dtAdded ?r = dtAdded it"
      "days ?r = days it"
      using it(1) by (simp_all add: restore_active restore_fields)
    have scr: "compatible p (ports ?r)" "same_scope p (ports ?r)"
      using over_same_scope [OF sc] ps by simp_all
    have I: "oc = Inserted \<longrightarrow> ?r = it\<lparr>oid := newOid items\<rparr>
        \<and> length (filter ?P items') = 1"
      using rea(1) by simp
    have R: "oc = Reactivated \<longrightarrow>
        (\<exists>old\<in>set items. expired old \<and> ip old = a \<and> same_scope p (ports old)
           \<and> oid ?r = oid old \<and> length (filter ?P items') = count_list items old)"
      using old by simp
    from basics scr sub mem all I R show ?thesis by blast
  qed
qed

text \<open>A successful insertion keeps the array well formed.\<close>

lemma wf_items_addItem:
  assumes wf: "wf_items items" and ok: "addItem items a p it imp = (oc, items')"
  shows "wf_items items'"
proof (cases "isAlreadyPresent it items")
  case (Some r)
  from addItem_rejected [OF Some, of a p imp] ok wf show ?thesis by simp
next
  case None
  let ?f = "checkRedundancies it items"
  have f: "set ?f \<subseteq> set items" by (rule checkRedundancies_subset)
  show ?thesis
  proof (cases "checkExpired ?f a p")
    case n: None
    let ?n = "it\<lparr>oid := newOid items\<rparr>"
    from addItem_inserted [OF None n, of imp] ok
    have items': "set items' = insert ?n (set ?f)"
      by (simp add: set_finish)
    have d: "oid z \<noteq> oid ?n" if "z \<in> set items" for z
      using newOid_fresh [OF that] by simp
    have "x = y" if "x \<in> set items'" "y \<in> set items'" "oid x = oid y" for x y
    proof -
      have c: "z = ?n \<or> z \<in> set items" if "z \<in> set items'" for z
        using that f unfolding items' by auto
      from c [OF that(1)] c [OF that(2)] show ?thesis
      proof (elim disjE)
        assume "x = ?n" "y = ?n"
        then show ?thesis by simp
      next
        assume "x = ?n" "y \<in> set items"
        with d [of y] that(3) show ?thesis by simp
      next
        assume "x \<in> set items" "y = ?n"
        with d [of x] that(3) show ?thesis by simp
      next
        assume "x \<in> set items" "y \<in> set items"
        with wf that(3) show ?thesis unfolding wf_items_def by blast
      qed
    qed
    then show ?thesis unfolding wf_items_def by blast
  next
    case (Some i)
    let ?old = "?f ! i"
    from addItem_reactivated [OF None Some, of imp] ok
    have items': "set items' = set (updateObject ?old (restore ?old it) ?f)"
      by (simp add: set_finish)
    from checkExpired_Some(1) [OF Some] have "?old \<in> set ?f" by simp
    with f have oldi: "?old \<in> set items" by blast
    have "x = y" if "x \<in> set items'" "y \<in> set items'" "oid x = oid y" for x y
    proof -
      have c: "(z = restore ?old it) \<or> (z \<in> set items \<and> z \<noteq> ?old)" if "z \<in> set items'" for z
        using that f unfolding items' updateObject_def by auto
      have d: "oid z \<noteq> oid ?old" if "z \<in> set items" "z \<noteq> ?old" for z
        using that wf oldi unfolding wf_items_def by blast
      from c [OF that(1)] c [OF that(2)] show ?thesis
      proof (elim disjE conjE)
        assume "x = restore ?old it" "y = restore ?old it"
        then show ?thesis by simp
      next
        assume "x = restore ?old it" "y \<in> set items" "y \<noteq> ?old"
        with d [of y] that(3) show ?thesis by (simp add: restore_fields)
      next
        assume "x \<in> set items" "x \<noteq> ?old" "y = restore ?old it"
        with d [of x] that(3) show ?thesis by (simp add: restore_fields)
      next
        assume "x \<in> set items" "y \<in> set items"
        with wf that(3) show ?thesis unfolding wf_items_def by blast
      qed
    qed
    then show ?thesis unfolding wf_items_def by blast
  qed
qed

lemma wf_items_add:
  assumes "wf_items items" and "add c now items a p extra imp = Inr (oc, items')"
  shows "wf_items items'"
  using assms wf_items_addItem [of items a p _ imp oc items']
  by (auto simp: add_def split: sum.splits)

text \<open>So do a removal and the expiry of the stale records.\<close>

lemma wf_items_subset:
  assumes "wf_items items" and "set xs \<subseteq> set items"
  shows "wf_items xs"
  using assms unfolding wf_items_def by blast

lemma remove_loop_subset: "set (fst (remove_loop a p items)) \<subseteq> set items"
  by (induction items) (auto simp: Let_def split: prod.splits if_splits)

lemma wf_items_remove_ip:
  assumes "wf_items items"
  shows "wf_items (snd (remove_ip items a p))"
proof -
  obtain newList found where l: "remove_loop a p items = (newList, found)"
    by (cases "remove_loop a p items")
  with remove_loop_subset [of a p items] have "set newList \<subseteq> set items" by simp
  with assms have "wf_items newList" by (rule wf_items_subset)
  with assms l show ?thesis by (simp add: remove_ip_def)
qed

lemma removeExpired_loop_subset:
  "set (fst (removeExpired_loop c now items))
     \<subseteq> (\<lambda>it. if getBlockDays c it = 0 \<or> now - dtAdded it < 86400000 * getBlockDays c it
                then it else it\<lparr>status := Some 1, dtExpired := Some now\<rparr>) ` set items"
  by (induction items) (auto simp: Let_def split: prod.splits if_splits)

lemma wf_items_removeExpired:
  assumes wf: "wf_items items"
  shows "wf_items (snd (removeExpired c now items))"
proof -
  let ?g = "\<lambda>it. if getBlockDays c it = 0 \<or> now - dtAdded it < 86400000 * getBlockDays c it
                then it else it\<lparr>status := Some 1, dtExpired := Some now\<rparr>"
  obtain newList rem where l: "removeExpired_loop c now items = (newList, rem)"
    by (cases "removeExpired_loop c now items")
  with removeExpired_loop_subset [of c now items]
  have sub: "set newList \<subseteq> ?g ` set items" by simp
  have g: "oid (?g x) = oid x" for x by simp
  have "x = y" if "x \<in> ?g ` set items" "y \<in> ?g ` set items" "oid x = oid y" for x y
  proof -
    from that(1,2) obtain u v where u: "u \<in> set items" "x = ?g u"
      and v: "v \<in> set items" "y = ?g v" by blast
    from that(3) u(2) v(2) g [of u] g [of v] have "oid u = oid v" by simp
    with wf u(1) v(1) have "u = v" unfolding wf_items_def by blast
    with u(2) v(2) show ?thesis by simp
  qed
  with sub have "wf_items newList" unfolding wf_items_def by blast
  with wf l show ?thesis by (simp add: removeExpired_def)
qed

subsection \<open>Concrete addresses\<close>

lemmas parse_defs = subnetMask_def calculateSubnetMask_def toDecimal_def parseOctet_def
  parsePrefix_def is_digit_def digit_val_def ipUse_def

lemmas key_defs = ipKey_def baseIP_def pad3_def Number_def is_digit_def digit_val_def

lemma subnetMask_examples:
  "subnetMask (ipUse ''10.0.0.5'') = Some \<lparr>fromDec = 167772165, toDec = 167772165\<rparr>"
  "subnetMask (ipUse ''10.0.0.255'') = Some \<lparr>fromDec = 167772415, toDec = 167772415\<rparr>"
  "subnetMask (ipUse ''9.255.255.255'') = Some \<lparr>fromDec = 167772159, toDec = 167772159\<rparr>"
  "subnetMask (ipUse ''10.0.0.0/24'') = Some \<lparr>fromDec = 167772160, toDec = 167772415\<rparr>"
  "subnetMask (ipUse ''10.0.0.0/16'') = Some \<lparr>fromDec = 167772160, toDec = 167837695\<rparr>"
  "subnetMask (ipUse ''94.181.47.232'') = Some \<lparr>fromDec = 1588932584, toDec = 1588932584\<rparr>"
  "subnetMask (ipUse ''3.0.115.255'') = Some \<lparr>fromDec = 50361343, toDec = 50361343\<rparr>"
  by (simp_all add: parse_defs)

lemma ipKey_examples:
  "ipKey ''10.0.0.5'' = Some 10000000005"
  "ipKey ''10.0.0.255'' = Some 10000000255"
  "ipKey ''9.255.255.255'' = Some 9255255255"
  "ipKey ''10.0.0.0/24'' = Some 10000000000"
  "ipKey ''10.0.0.0/16'' = Some 10000000000"
  "ipKey ''94.181.47.232'' = Some 94181047232"
  "ipKey ''3.0.115.255'' = Some 3000115255"
  "ipKey ''1.2.3.4'' = Some 1002003004"
  by (simp_all add: key_defs)

lemma makeItem_cfg0:
  assumes "subnetMask (ipUse a) = Some \<lparr>fromDec = lo, toDec = hi\<rparr>"
    and "p = None \<or> p = Some ''ssh''"
  shows "makeItem cfg0 now a p (Some ex0) = Inr (Inr (rec 0 a now p lo hi))"
  using assms
  by (auto simp: makeItem_def addWorking_def portsReason_def extraReason_def cfg0_def ex0_def
      rec_def truthy_str_def truthy_num_def keep_str_def keep_num_def)

lemmas list_defs = addItem_def checkExpired_def finish_def sortByIP_def cmp_le_def
  sortIPCompare_def updateObject_def newOid_def rec_def truthy_str_def truthy_num_def Let_def

lemmas sweep_defs = removeExpired_def getBlockDays_def cfg0_def rec_def truthy_num_def
  truthy_str_def

subsection \<open>Rejected insertions\<close>




text \<open>
  Claim C2: a candidate whose address string differs from that of every active record
  and whose range is contained in the range of some active record is rejected with
  \<open>AlreadyCovered\<close>, and nothing is added.
\<close>

theorem add_already_covered:
  assumes mk: "makeItem c now a p extra = Inr (Inr it)"
    and other: "\<forall>e\<in>set items. active e \<longrightarrow> ip e \<noteq> a"
    and e: "e \<in> set items" "active e" "range_contains (working e) (working it)"
  shows "add c now items a p extra imp = Inr (AlreadyCovered, items)"
proof -
  have "isAlreadyPresent it items = Some AlreadyCovered"
    using other e makeItem_fields(1) [OF mk]
    by (intro isAlreadyPresent_covered [of items it e]) auto
  from addItem_rejected [OF this] show ?thesis
    by (simp add: add_makeItem [OF mk])
qed

theorem add_already_covered_witness:
  "add cfg0 100 [] ''10.0.0.0/24'' None (Some ex0) False
     = Inr (Inserted, [rec 1 ''10.0.0.0/24'' 100 None 167772160 167772415])
   \<and> add cfg0 200 [rec 1 ''10.0.0.0/24'' 100 None 167772160 167772415]
        ''10.0.0.5'' None (Some ex0) False
     = Inr (AlreadyCovered, [rec 1 ''10.0.0.0/24'' 100 None 167772160 167772415])"
proof -
  have mk: "makeItem cfg0 200 ''10.0.0.5'' None (Some ex0)
      = Inr (Inr (rec 0 ''10.0.0.5'' 200 None 167772165 167772165))"
    by (simp add: makeItem_cfg0 subnetMask_examples)
  have mk24: "makeItem cfg0 100 ''10.0.0.0/24'' None (Some ex0)
      = Inr (Inr (rec 0 ''10.0.0.0/24'' 100 None 167772160 167772415))"
    by (simp add: makeItem_cfg0 subnetMask_examples)
  have first: "add cfg0 100 [] ''10.0.0.0/24'' None (Some ex0) False
      = Inr (Inserted, [rec 1 ''10.0.0.0/24'' 100 None 167772160 167772415])"
    by (simp add: add_makeItem [OF mk24] list_defs)
  have other: "\<forall>e\<in>set [rec 1 ''10.0.0.0/24'' 100 None 167772160 167772415].
      active e \<longrightarrow> ip e \<noteq> ''10.0.0.5''"
    by (simp add: rec_def)
  have cover: "range_contains (working (rec 1 ''10.0.0.0/24'' 100 None 167772160 167772415))
      (working (rec 0 ''10.0.0.5'' 200 None 167772165 167772165))"
    by (simp add: rec_def range_contains_def)
  have act: "active (rec 1 ''10.0.0.0/24'' 100 None 167772160 167772415)"
    by (simp add: rec_def active_def truthy_num_def)
  from add_already_covered [OF mk other _ act cover, of False] first
  show ?thesis by simp
qed

subsection \<open>Successful insertions\<close>

text \<open>
  Claim C3, as amended: during a successful insertion every active record with another
  address string whose range is contained in the candidate's and whose port scope is
  compatible (the candidate has none, or the same) is removed; when the candidate has no
  port scope, every active record with the candidate's address string and a named port
  scope is removed as well; every other active record with another address string is
  retained exactly once and unchanged; every record that is not active is retained
  unchanged when it has another address string or when no expired record is restored;
  and every record of the new collection is a record of the old one, or the record
  inserted or restored. The witness below is the example of the claim: after
  \<^verbatim>\<open>10.0.0.0/24\<close>, inserting \<^verbatim>\<open>10.0.0.0/16\<close> leaves the \<^verbatim>\<open>/16\<close> record alone.
\<close>

theorem add_supersedes:
  assumes mk: "makeItem c now a p extra = Inr (Inr it)"
    and ok: "add c now items a p extra imp = Inr (oc, items')"
    and oc: "oc = Inserted \<or> oc = Reactivated"
  shows "(\<forall>e\<in>set items. active e \<and> ip e \<noteq> a \<and> superseded it e \<longrightarrow> e \<notin> set items')
       \<and> (p = None \<longrightarrow>
            (\<forall>e\<in>set items. active e \<and> ip e = a \<and> truthy_str (ports e) \<longrightarrow> e \<notin> set items'))
       \<and> (\<forall>e\<in>set items. active e \<and> ip e \<noteq> a \<and> \<not> superseded it e \<longrightarrow>
            count_list items' e = count_list items e)
       \<and> (\<forall>e\<in>set items. \<not> active e \<and> (ip e \<noteq> a \<or> oc = Inserted) \<longrightarrow> e \<in> set items')
       \<and> (\<exists>r. active r \<and> ip r = a \<and> r \<in> set items' \<and> set items' \<subseteq> insert r (set items))"
proof -
  let ?f = "checkRedundancies it items"
  note f = makeItem_fields [OF mk]
  from ok have ok': "addItem items a p it imp = (oc, items')"
    by (simp add: add_makeItem [OF mk])
  from addItem_success_parts [OF ok' oc f(1) f(2) makeItem_active [OF mk]]
  obtain r where r: "active r" "ip r = a" "same_scope p (ports r)" "r \<in> set items'"
    and sub: "set items' \<subseteq> insert r (set ?f)"
    by blast
  have old: "\<not> active x" if "x \<in> set ?f" "ip x = a" for x
    using filtered_no_active_same_ip [OF that(1)] that(2) f(1) by simp
  have 1: "\<forall>e\<in>set items. active e \<and> ip e \<noteq> a \<and> superseded it e \<longrightarrow> e \<notin> set items'"
  proof (intro ballI impI notI)
    fix e assume e: "active e \<and> ip e \<noteq> a \<and> superseded it e" "e \<in> set items'"
    with sub r(2) have "e \<in> set ?f" by auto
    from checkRedundancies_member [OF this] e(1) show False by simp
  qed
  have 2: "p = None \<longrightarrow>
      (\<forall>e\<in>set items. active e \<and> ip e = a \<and> truthy_str (ports e) \<longrightarrow> e \<notin> set items')"
  proof (intro ballI impI notI)
    fix e assume p: "p = None" and e: "active e \<and> ip e = a \<and> truthy_str (ports e)" "e \<in> set items'"
    from r(3) p have "\<not> truthy_str (ports r)" by (simp add: same_scope_def truthy_str_def)
    with e sub have "e \<in> set ?f" by auto
    with old e(1) show False by blast
  qed
  have 3: "\<forall>e\<in>set items. active e \<and> ip e \<noteq> a \<and> \<not> superseded it e \<longrightarrow>
      count_list items' e = count_list items e"
  proof (intro ballI impI)
    fix e assume e: "active e \<and> ip e \<noteq> a \<and> \<not> superseded it e"
    let ?K = "\<lambda>e. active e \<and> ip e \<noteq> ip it \<and> \<not> superseded it e"
    from e f(1) have K: "?K e" by simp
    have "count_list ?f e = count_list (filter ?K ?f) e"
      using count_list_filter [of ?K e ?f] K by simp
    also have "\<dots> = count_list (filter ?K items) e"
      by (simp only: checkRedundancies_filter_kept)
    also have "\<dots> = count_list items e"
      using count_list_filter [of ?K e items] K by simp
    finally have cf: "count_list ?f e = count_list items e" .
    from ok' oc show "count_list items' e = count_list items e"
    proof (cases rule: addItem_success_cases)
      case ins
      have "e \<noteq> it\<lparr>oid := newOid items\<rparr>" using e f(1) by auto
      with ins(3) cf show ?thesis by (simp add: count_finish)
    next
      case (rea i)
      from checkExpired_Some [OF rea(2)] have i: "i < length ?f" "ip (?f ! i) = a" by auto
      have "count_list (updateObject (?f ! i) (restore (?f ! i) it) ?f) e = count_list ?f e"
        using i e f(1) by (intro count_list_updateObject_other) (auto simp: restore_fields)
      with rea(3) cf show ?thesis by (simp add: count_finish)
    qed
  qed
  have 4: "\<forall>e\<in>set items. \<not> active e \<and> (ip e \<noteq> a \<or> oc = Inserted) \<longrightarrow> e \<in> set items'"
  proof (intro ballI impI)
    fix e assume e: "e \<in> set items" "\<not> active e \<and> (ip e \<noteq> a \<or> oc = Inserted)"
    then have ef: "e \<in> set ?f" by (simp add: checkRedundancies_keeps_inactive)
    from ok' oc show "e \<in> set items'"
    proof (cases rule: addItem_success_cases)
      case ins
      with ef show ?thesis by (simp add: set_finish)
    next
      case (rea i)
      from checkExpired_Some [OF rea(2)] have i: "i < length ?f" "ip (?f ! i) = a" by auto
      from rea(1) e(2) have "ip e \<noteq> a" by auto
      with i have "e \<noteq> ?f ! i" by auto
      with ef have "e \<in> set (updateObject (?f ! i) (restore (?f ! i) it) ?f)"
        by (intro updateObject_facts(5))
      with rea(3) show ?thesis by (simp add: set_finish)
    qed
  qed
  have 5: "\<exists>r. active r \<and> ip r = a \<and> r \<in> set items' \<and> set items' \<subseteq> insert r (set items)"
    using r sub checkRedundancies_subset [of it items] by (intro exI [of _ r]) auto
  from 1 2 3 4 5 show ?thesis by blast
qed

theorem add_supersedes_witness:
  "add cfg0 100 [] ''10.0.0.0/24'' None (Some ex0) False
     = Inr (Inserted, [rec 1 ''10.0.0.0/24'' 100 None 167772160 167772415])
   \<and> add cfg0 200 [rec 1 ''10.0.0.0/24'' 100 None 167772160 167772415]
       ''10.0.0.0/16'' None (Some ex0) False
     = Inr (Inserted, [rec 2 ''10.0.0.0/16'' 200 None 167772160 167837695])
   \<and> rec 1 ''10.0.0.0/24'' 100 None 167772160 167772415
       \<notin> set [rec 2 ''10.0.0.0/16'' 200 None 167772160 167837695]"
proof -
  let ?a = "rec 1 ''10.0.0.0/24'' 100 None 167772160 167772415"
  let ?b = "rec 2 ''10.0.0.0/16'' 200 None 167772160 167837695"
  let ?bc = "rec 0 ''10.0.0.0/16'' 200 None 167772160 167837695"
  have mka: "makeItem cfg0 100 ''10.0.0.0/24'' None (Some ex0)
      = Inr (Inr (rec 0 ''10.0.0.0/24'' 100 None 167772160 167772415))"
    by (simp add: makeItem_cfg0 subnetMask_examples)
  have mkb: "makeItem cfg0 200 ''10.0.0.0/16'' None (Some ex0) = Inr (Inr ?bc)"
    by (simp add: makeItem_cfg0 subnetMask_examples)
  have first: "add cfg0 100 [] ''10.0.0.0/24'' None (Some ex0) False = Inr (Inserted, [?a])"
    by (simp add: add_makeItem [OF mka] list_defs)
  have run: "add cfg0 200 [?a] ''10.0.0.0/16'' None (Some ex0) False = Inr (Inserted, [?b])"
    by (simp add: add_makeItem [OF mkb] list_defs)
  have a: "active ?a \<and> ip ?a \<noteq> ''10.0.0.0/16'' \<and> superseded ?bc ?a"
    by (simp add: rec_def active_def truthy_num_def superseded_def range_contains_def)
  from add_supersedes [OF mkb run] a have "?a \<notin> set [?b]" by simp
  with first run show ?thesis by simp
qed

theorem add_supersedes_counterexample:
  "add cfg0 100
       [(rec 1 ''1.2.3.4'' 1 None 16909060 16909060)\<lparr>status := Some 1, dtExpired := Some 50\<rparr>,
        rec 2 ''10.0.0.5'' 60 (Some ''ssh'') 167772165 167772165]
       ''10.0.0.5'' None (Some ex0) False
     = Inr (Inserted,
         [(rec 1 ''1.2.3.4'' 1 None 16909060 16909060)\<lparr>status := Some 1, dtExpired := Some 50\<rparr>,
          (rec 1 ''1.2.3.4'' 1 None 16909060 16909060)\<lparr>status := Some 1, dtExpired := Some 50\<rparr>,
          rec 3 ''10.0.0.5'' 100 None 167772165 167772165])"
proof -
  have mk: "makeItem cfg0 100 ''10.0.0.5'' None (Some ex0)
      = Inr (Inr (rec 0 ''10.0.0.5'' 100 None 167772165 167772165))"
    by (simp add: makeItem_cfg0 subnetMask_examples)
  show ?thesis
    by (simp add: add_makeItem [OF mk] list_defs ipKey_examples)
qed




subsection \<open>Restoring an expired record\<close>




subsection \<open>Expired records in the sweep and in the removal\<close>

text \<open>
  Claim C5: the sweep acts on active records only, and a record that is already expired
  is never modified, removed or counted. \<^verbatim>\<open>removeExpired\<close> does not look at the
  status: a day after the record of \<^verbatim>\<open>3.0.115.255\<close> has expired, a second sweep stamps it with a new
  expiry date and counts it again, and with \<^verbatim>\<open>expireDeletes\<close> set it deletes the
  expired record.
\<close>

theorem removeExpired_sweeps_expired:
  "removeExpired cfg0 1614248873441
       [(rec 1 ''3.0.115.255'' 1613903273441 None 50361343 50361343)
          \<lparr>days := Some 3, status := Some 1, dtExpired := Some 1614162473441\<rparr>]
     = (1, [(rec 1 ''3.0.115.255'' 1613903273441 None 50361343 50361343)
              \<lparr>days := Some 3, status := Some 1, dtExpired := Some 1614248873441\<rparr>])
   \<and> removeExpired (cfg0\<lparr>expireDeletes := True\<rparr>) 1614248873441
       [(rec 1 ''3.0.115.255'' 1613903273441 None 50361343 50361343)
          \<lparr>days := Some 3, status := Some 1, dtExpired := Some 1614162473441\<rparr>]
     = (1, [])"
  by (simp add: sweep_defs)

text \<open>
  Claim C6: \<^verbatim>\<open>remove\<close> removes the matching active records, keeps every expired record
  exactly once and reports success exactly when it has removed a record. The loop pushes
  an expired record and then goes on with it: removing the active record of
  \<^verbatim>\<open>10.0.0.5\<close> leaves the expired record of \<^verbatim>\<open>1.2.3.4\<close> twice, and removing
  \<^verbatim>\<open>1.2.3.4\<close>, of which there is only an expired record, reports success and removes
  nothing.
\<close>

theorem remove_ip_expired_records:
  "remove_ip
       [(rec 1 ''1.2.3.4'' 1 None 16909060 16909060)\<lparr>status := Some 1, dtExpired := Some 50\<rparr>,
        rec 2 ''10.0.0.5'' 60 None 167772165 167772165]
       ''10.0.0.5'' None
     = (True,
        [(rec 1 ''1.2.3.4'' 1 None 16909060 16909060)\<lparr>status := Some 1, dtExpired := Some 50\<rparr>,
         (rec 1 ''1.2.3.4'' 1 None 16909060 16909060)\<lparr>status := Some 1, dtExpired := Some 50\<rparr>])
   \<and> remove_ip
       [(rec 1 ''1.2.3.4'' 1 None 16909060 16909060)\<lparr>status := Some 1, dtExpired := Some 50\<rparr>]
       ''1.2.3.4'' None
     = (True,
        [(rec 1 ''1.2.3.4'' 1 None 16909060 16909060)\<lparr>status := Some 1, dtExpired := Some 50\<rparr>])"
  by (simp add: remove_ip_def rec_def truthy_num_def truthy_str_def)

subsection \<open>Block days\<close>

text \<open>
  Claim C8, as amended: the block days of a record are its own days when present and
  not zero; else the default of its country when the country is set and configured with
  days that are not zero; else the days of its port group when the port scope is set and
  configured with days that are not zero; else the global default; else \<open>0\<close>. A record
  without days, with a country configured with 10 days and a port scope configured with
  5 days, resolves to 10 days.
\<close>

theorem getBlockDays_precedence:
  "getBlockDays c it = resolveTTLDays c it
   \<and> getBlockDays
        (cfg0\<lparr>countryBlockDays := Some [''XX'' \<mapsto> 10],
              cfg_ports := [''ssh'' \<mapsto> \<lparr>p_ports = [22], p_days = Some 5, p_reason = None\<rparr>]\<rparr>)
        ((rec 1 ''10.0.0.5'' 100 (Some ''ssh'') 167772165 167772165)\<lparr>country := Some ''XX''\<rparr>)
      = 10"
proof
  show "getBlockDays c it = resolveTTLDays c it"
    unfolding getBlockDays_def resolveTTLDays_def countryTTL_def portTTL_def nonzero_def
      truthy_num_def truthy_str_def Let_def
    by (simp split: option.splits)
  show "getBlockDays
        (cfg0\<lparr>countryBlockDays := Some [''XX'' \<mapsto> 10],
              cfg_ports := [''ssh'' \<mapsto> \<lparr>p_ports = [22], p_days = Some 5, p_reason = None\<rparr>]\<rparr>)
        ((rec 1 ''10.0.0.5'' 100 (Some ''ssh'') 167772165 167772165)\<lparr>country := Some ''XX''\<rparr>)
      = 10"
    by (simp add: getBlockDays_def cfg0_def rec_def truthy_num_def truthy_str_def)
qed

theorem getBlockDays_counterexample:
  "getBlockDays (cfg0\<lparr>defaultBlockDays := Some 30, countryBlockDays := Some [''XX'' \<mapsto> 0]\<rparr>)
      ((rec 1 ''10.0.0.5'' 100 None 167772165 167772165)\<lparr>country := Some ''XX''\<rparr>) = 30
   \<and> days ((rec 1 ''10.0.0.5'' 100 None 167772165 167772165)\<lparr>country := Some ''XX''\<rparr>) = None
   \<and> map_option (\<lambda>m. m ''XX'')
        (countryBlockDays
          (cfg0\<lparr>defaultBlockDays := Some 30, countryBlockDays := Some [''XX'' \<mapsto> 0]\<rparr>))
      = Some (Some 0)"
  by (simp add: getBlockDays_def cfg0_def rec_def truthy_num_def truthy_str_def)

subsection \<open>The comparator and the stored order\<close>

lemma dec_val_acc: "dec_val acc xs = acc * 10 ^ length xs + dec_val 0 xs"
proof (induction xs arbitrary: acc)
  case Nil
  then show ?case by simp
next
  case (Cons x xs)
  from Cons.IH [of "acc * 10 + digit_val x"] Cons.IH [of "digit_val x"]
  show ?case by (simp add: algebra_simps)
qed

lemma dec_val_append: "dec_val acc (xs @ ys) = dec_val (dec_val acc xs) ys"
  by (induction xs arbitrary: acc) simp_all

lemma dec_val_field:
  assumes "length ys = 3"
  shows "dec_val acc (xs @ ys) = dec_val acc xs * 1000 + dec_val 0 ys"
  using dec_val_acc [of "dec_val acc xs" ys] assms by (simp add: dec_val_append)

lemma short_list_cases:
  assumes "s \<noteq> []" and "length s \<le> 3"
  shows "(\<exists>a. s = [a]) \<or> (\<exists>a b. s = [a, b]) \<or> (\<exists>a b c. s = [a, b, c])"
proof (cases s)
  case Nil
  with assms show ?thesis by simp
next
  case s1: (Cons a s1)
  show ?thesis
  proof (cases s1)
    case Nil
    with s1 show ?thesis by simp
  next
    case s2: (Cons b s2)
    show ?thesis
    proof (cases s2)
      case Nil
      with s1 s2 show ?thesis by simp
    next
      case (Cons c s3)
      with s1 s2 assms show ?thesis by simp
    qed
  qed
qed

lemma pad3_octet:
  assumes "parseOctet s = Some v"
  shows "length (pad3 s) = 3" and "list_all is_digit (pad3 s)" and "dec_val 0 (pad3 s) = v"
    and "v \<le> 255"
proof -
  from assms have s: "s \<noteq> []" "length s \<le> 3" "list_all is_digit s" "dec_val 0 s = v" "v \<le> 255"
    by (auto simp: parseOctet_def split: if_splits)
  from short_list_cases [OF s(1,2)]
  consider a where "s = [a]" | a b where "s = [a, b]" | a b c where "s = [a, b, c]"
    by blast
  then have "length (pad3 s) = 3 \<and> list_all is_digit (pad3 s) \<and> dec_val 0 (pad3 s) = v"
    using s by cases (auto simp: pad3_def is_digit_def digit_val_def)
  then show "length (pad3 s) = 3" and "list_all is_digit (pad3 s)" and "dec_val 0 (pad3 s) = v"
    by simp_all
  show "v \<le> 255" by (rule s(5))
qed

lemma toDecimal_Some:
  assumes "toDecimal s = Some x"
  obtains sa sb sc sd a b c d where "split (CHR ''.'') s = [sa, sb, sc, sd]"
    and "parseOctet sa = Some a" and "parseOctet sb = Some b"
    and "parseOctet sc = Some c" and "parseOctet sd = Some d"
    and "x = ((a * 256 + b) * 256 + c) * 256 + d"
proof -
  from assms obtain a b c d where m: "map parseOctet (split (CHR ''.'') s) = [Some a, Some b, Some c, Some d]"
    and x: "x = ((a * 256 + b) * 256 + c) * 256 + d"
    by (auto simp: toDecimal_def split: list.splits option.splits)
  from m obtain sa sb sc sd where "split (CHR ''.'') s = [sa, sb, sc, sd]"
    and "parseOctet sa = Some a" and "parseOctet sb = Some b"
    and "parseOctet sc = Some c" and "parseOctet sd = Some d"
    by (auto simp: map_eq_Cons_conv)
  with x that show thesis by blast
qed

lemma ipKey_valid:
  assumes "toDecimal (baseIP s) = Some x"
  obtains a b c d where "a \<le> 255" and "b \<le> 255" and "c \<le> 255" and "d \<le> 255"
    and "x = ((a * 256 + b) * 256 + c) * 256 + d"
    and "ipKey s = Some (((a * 1000 + b) * 1000 + c) * 1000 + d)"
proof -
  from assms obtain sa sb sc sd a b c d where sp: "split (CHR ''.'') (baseIP s) = [sa, sb, sc, sd]"
    and o: "parseOctet sa = Some a" "parseOctet sb = Some b"
      "parseOctet sc = Some c" "parseOctet sd = Some d"
    and x: "x = ((a * 256 + b) * 256 + c) * 256 + d"
    by (rule toDecimal_Some)
  note pa = pad3_octet [OF o(1)] and pb = pad3_octet [OF o(2)]
    and pc = pad3_octet [OF o(3)] and pd = pad3_octet [OF o(4)]
  have "dec_val 0 (((pad3 sa @ pad3 sb) @ pad3 sc) @ pad3 sd)
      = ((a * 1000 + b) * 1000 + c) * 1000 + d"
    using pa(1,3) pb(1,3) pc(1,3) pd(1,3)
    by (simp only: dec_val_field)
  then have "ipKey s = Some (((a * 1000 + b) * 1000 + c) * 1000 + d)"
    using sp pa(2) pb(2) pc(2) pd(2) by (simp add: ipKey_def Number_def)
  with pa(4) pb(4) pc(4) pd(4) x that show thesis by blast
qed

lemma lex_step:
  fixes h h' d d' B :: nat
  assumes "d < B" and "d' < B"
  shows "h * B + d < h' * B + d' \<longleftrightarrow> h < h' \<or> (h = h' \<and> d < d')"
proof (cases h h' rule: linorder_cases)
  case less
  then have "Suc h * B \<le> h' * B" by (intro mult_le_mono1) simp
  with assms less show ?thesis by simp
next
  case equal
  then show ?thesis by simp
next
  case greater
  then have "Suc h' * B \<le> h * B" by (intro mult_le_mono1) simp
  with assms greater show ?thesis by simp
qed

lemma lex_step_eq:
  fixes h h' d d' B :: nat
  assumes "d < B" and "d' < B"
  shows "h * B + d = h' * B + d' \<longleftrightarrow> h = h' \<and> d = d'"
  using lex_step [OF assms, of h h'] lex_step [OF assms(2) assms(1), of h' h] by auto

lemma key_order:
  fixes a b c d a' b' c' d' :: nat
  assumes "a \<le> 255" "b \<le> 255" "c \<le> 255" "d \<le> 255"
    and "a' \<le> 255" "b' \<le> 255" "c' \<le> 255" "d' \<le> 255"
  shows "((a * 1000 + b) * 1000 + c) * 1000 + d < ((a' * 1000 + b') * 1000 + c') * 1000 + d'
           \<longleftrightarrow> ((a * 256 + b) * 256 + c) * 256 + d < ((a' * 256 + b') * 256 + c') * 256 + d'"
    and "((a * 1000 + b) * 1000 + c) * 1000 + d = ((a' * 1000 + b') * 1000 + c') * 1000 + d'
           \<longleftrightarrow> ((a * 256 + b) * 256 + c) * 256 + d = ((a' * 256 + b') * 256 + c') * 256 + d'"
proof -
  from assms have bounds: "b < 1000" "c < 1000" "d < 1000" "b' < 1000" "c' < 1000" "d' < 1000"
    "b < 256" "c < 256" "d < 256" "b' < 256" "c' < 256" "d' < 256"
    by simp_all
  show "((a * 1000 + b) * 1000 + c) * 1000 + d < ((a' * 1000 + b') * 1000 + c') * 1000 + d'
           \<longleftrightarrow> ((a * 256 + b) * 256 + c) * 256 + d < ((a' * 256 + b') * 256 + c') * 256 + d'"
    using bounds by (simp only: lex_step lex_step_eq)
  show "((a * 1000 + b) * 1000 + c) * 1000 + d = ((a' * 1000 + b') * 1000 + c') * 1000 + d'
           \<longleftrightarrow> ((a * 256 + b) * 256 + c) * 256 + d = ((a' * 256 + b') * 256 + c') * 256 + d'"
    using bounds by (simp only: lex_step_eq)
qed

lemma sortIPCompare_valid:
  assumes "ip32 u = Some x" and "ip32 v = Some y"
  shows "\<exists>k. sortIPCompare u v = Some k \<and> (k < 0 \<longleftrightarrow> x < y) \<and> (k = 0 \<longleftrightarrow> x = y)
           \<and> (0 < k \<longleftrightarrow> y < x) \<and> x < 2 ^ 32 \<and> y < 2 ^ 32"
proof -
  from assms(1) obtain a b c d where u: "a \<le> 255" "b \<le> 255" "c \<le> 255" "d \<le> 255"
    "x = ((a * 256 + b) * 256 + c) * 256 + d"
    "ipKey (ip u) = Some (((a * 1000 + b) * 1000 + c) * 1000 + d)"
    unfolding ip32_def by (rule ipKey_valid)
  from assms(2) obtain a' b' c' d' where v: "a' \<le> 255" "b' \<le> 255" "c' \<le> 255" "d' \<le> 255"
    "y = ((a' * 256 + b') * 256 + c') * 256 + d'"
    "ipKey (ip v) = Some (((a' * 1000 + b') * 1000 + c') * 1000 + d')"
    unfolding ip32_def by (rule ipKey_valid)
  let ?k = "((a * 1000 + b) * 1000 + c) * 1000 + d"
  let ?k' = "((a' * 1000 + b') * 1000 + c') * 1000 + d'"
  note lt = key_order(1) [OF u(1-4) v(1-4)] and eq = key_order(2) [OF u(1-4) v(1-4)]
    and gt = key_order(1) [OF v(1-4) u(1-4)]
  have cmp: "sortIPCompare u v = Some (int ?k - int ?k')"
    using u(6) v(6) by (simp add: sortIPCompare_def)
  have "(int ?k - int ?k' < 0 \<longleftrightarrow> x < y)" using lt u(5) v(5) by linarith
  moreover have "(int ?k - int ?k' = 0 \<longleftrightarrow> x = y)" using eq u(5) v(5) by linarith
  moreover have "(0 < int ?k - int ?k' \<longleftrightarrow> y < x)" using gt u(5) v(5) by linarith
  moreover have "x < 2 ^ 32" using u(1-5) by simp
  moreover have "y < 2 ^ 32" using v(1-5) by simp
  ultimately show ?thesis using cmp by blast
qed

lemma cmp_le_valid:
  assumes "ip32 u = Some x" and "ip32 v = Some y"
  shows "cmp_le u v \<longleftrightarrow> x \<le> y"
proof -
  from sortIPCompare_valid [OF assms]
  obtain k where "sortIPCompare u v = Some k" "k < 0 \<longleftrightarrow> x < y" "k = 0 \<longleftrightarrow> x = y"
    by blast
  then show ?thesis by (auto simp: cmp_le_def)
qed

lemma sorted_insertItem:
  assumes "ip32 x \<noteq> None" and "\<forall>e\<in>set xs. ip32 e \<noteq> None"
    and "sorted (map (\<lambda>e. the (ip32 e)) xs)"
  shows "sorted (map (\<lambda>e. the (ip32 e)) (insertItem x xs))"
  using assms
proof (induction xs)
  case Nil
  then show ?case by simp
next
  case (Cons y ys)
  from Cons.prems obtain vx vy where v: "ip32 x = Some vx" "ip32 y = Some vy" by auto
  show ?case
  proof (cases "cmp_le x y")
    case True
    with cmp_le_valid [OF v] have "vx \<le> vy" by simp
    with True Cons.prems v show ?thesis by auto
  next
    case False
    with cmp_le_valid [OF v] have "vy \<le> vx" by simp
    moreover have "sorted (map (\<lambda>e. the (ip32 e)) (insertItem x ys))"
      using Cons by simp
    ultimately show ?thesis
      using False Cons.prems(3) v by (auto simp: set_insertItem)
  qed
qed

lemma sorted_sortByIP:
  assumes "\<forall>e\<in>set xs. ip32 e \<noteq> None"
  shows "sorted (map (\<lambda>e. the (ip32 e)) (sortByIP xs))"
  using assms
proof (induction xs)
  case Nil
  then show ?case by (simp add: sortByIP_def)
next
  case (Cons x xs)
  have "sortByIP (x # xs) = insertItem x (sortByIP xs)" by (simp add: sortByIP_def)
  with Cons show ?case by (simp add: sorted_insertItem set_sortByIP)
qed

lemma split_first:
  assumes "c \<notin> set a"
  shows "split c (a @ c # r) = a # split c r"
  using assms by (induction a) auto

lemma makeItem_valid:
  assumes "makeItem c now a p extra = Inr (Inr it)"
  shows "ip32 it \<noteq> None"
proof -
  from assms obtain w where w: "subnetMask (ipUse a) = Some w" and a: "ip it = a"
    unfolding makeItem_Inr_iff by auto
  have sl: "CHR ''/'' \<in> set (ipUse a)" by (simp add: ipUse_def)
  with w obtain x y rest where sp: "split (CHR ''/'') (ipUse a) = x # y # rest"
    and cm: "calculateSubnetMask x y = Some w"
    by (auto simp: subnetMask_def split: list.splits)
  from cm obtain n where n: "toDecimal x = Some n"
    by (auto simp: calculateSubnetMask_def split: option.splits)
  have "baseIP a = x"
  proof (cases "CHR ''/'' \<in> set a")
    case True
    with sp show ?thesis by (simp add: baseIP_def ipUse_def)
  next
    case False
    with sp split_first [OF False, of "''32''"] show ?thesis
      by (simp add: baseIP_def ipUse_def)
  qed
  with n a show ?thesis by (simp add: ip32_def)
qed

lemma ip32_restore: "ip32 (restore old it) = ip32 it"
  by (simp add: ip32_def restore_def)

lemma ip32_examples:
  "ip32 (rec n ''10.0.0.5'' t p lo hi) = Some 167772165"
  "ip32 (rec n ''9.255.255.255'' t p lo hi) = Some 167772159"
  "ip32 (rec n ''10.0.0.255'' t p lo hi) = Some 167772415"
  by (simp_all add: ip32_def rec_def baseIP_def toDecimal_def parseOctet_def is_digit_def
      digit_val_def)

text \<open>
  Claim C9: for two valid dotted-quad addresses (each octet 0-255, a CIDR suffix
  stripped) the comparator's result orders them as their unsigned 32-bit values do: it
  is negative, zero or positive exactly when the first value is smaller than, equal to or
  larger than the second. Hence the sort puts a collection of valid addresses in
  ascending order of their 32-bit values and keeps its records, every successful
  insertion (that sorts) into a collection of valid addresses leaves the collection in
  that order, and the addresses \<^verbatim>\<open>10.0.0.5\<close>, \<^verbatim>\<open>9.255.255.255\<close>, \<^verbatim>\<open>10.0.0.255\<close> are
  stored in the order \<^verbatim>\<open>9.255.255.255\<close>, \<^verbatim>\<open>10.0.0.5\<close>, \<^verbatim>\<open>10.0.0.255\<close>.
\<close>

theorem sortIPCompare_orders_as_ip32:
  "(ip32 u = Some x \<and> ip32 v = Some y \<longrightarrow>
      (\<exists>k. sortIPCompare u v = Some k \<and> (k < 0 \<longleftrightarrow> x < y) \<and> (k = 0 \<longleftrightarrow> x = y)
           \<and> (0 < k \<longleftrightarrow> y < x) \<and> x < 2 ^ 32 \<and> y < 2 ^ 32))
   \<and> ((\<forall>e\<in>set items. ip32 e \<noteq> None) \<longrightarrow>
        sorted (map (\<lambda>e. the (ip32 e)) (sortByIP items)) \<and> mset (sortByIP items) = mset items)
   \<and> ((\<forall>e\<in>set items. ip32 e \<noteq> None)
        \<and> add c now items a p extra False = Inr (oc, items')
        \<and> (oc = Inserted \<or> oc = Reactivated) \<longrightarrow>
        sorted (map (\<lambda>e. the (ip32 e)) items'))
   \<and> map ip (sortByIP [rec 1 ''10.0.0.5'' 1 None 167772165 167772165,
                        rec 2 ''9.255.255.255'' 2 None 167772159 167772159,
                        rec 3 ''10.0.0.255'' 3 None 167772415 167772415])
      = [''9.255.255.255'', ''10.0.0.5'', ''10.0.0.255'']"
proof (intro conjI impI)
  assume "ip32 u = Some x \<and> ip32 v = Some y"
  then show "\<exists>k. sortIPCompare u v = Some k \<and> (k < 0 \<longleftrightarrow> x < y) \<and> (k = 0 \<longleftrightarrow> x = y)
           \<and> (0 < k \<longleftrightarrow> y < x) \<and> x < 2 ^ 32 \<and> y < 2 ^ 32"
    using sortIPCompare_valid [of u x v y] by blast
next
  assume "\<forall>e\<in>set items. ip32 e \<noteq> None"
  then show "sorted (map (\<lambda>e. the (ip32 e)) (sortByIP items))" by (rule sorted_sortByIP)
next
  show "mset (sortByIP items) = mset items" by (rule mset_sortByIP)
next
  assume h: "(\<forall>e\<in>set items. ip32 e \<noteq> None)
      \<and> add c now items a p extra False = Inr (oc, items')
      \<and> (oc = Inserted \<or> oc = Reactivated)"
  then obtain it where mk: "makeItem c now a p extra = Inr (Inr it)"
    by (metis add_success_makeItem)
  from h have ok: "addItem items a p it False = (oc, items')"
    and oc: "oc = Inserted \<or> oc = Reactivated"
    by (simp_all add: add_makeItem [OF mk])
  let ?f = "checkRedundancies it items"
  have vf: "\<forall>e\<in>set ?f. ip32 e \<noteq> None"
    using h checkRedundancies_subset [of it items] by blast
  note vi = makeItem_valid [OF mk]
  from ok oc show "sorted (map (\<lambda>e. the (ip32 e)) items')"
  proof (cases rule: addItem_success_cases)
    case ins
    have "\<forall>e\<in>set (?f @ [it\<lparr>oid := newOid items\<rparr>]). ip32 e \<noteq> None"
      using vf vi by (simp add: ip32_def)
    from sorted_sortByIP [OF this] ins(3) show ?thesis by (simp add: finish_def)
  next
    case (rea i)
    have "\<forall>e\<in>set (updateObject (?f ! i) (restore (?f ! i) it) ?f). ip32 e \<noteq> None"
      using vf vi updateObject_facts(2) [of "?f ! i" "restore (?f ! i) it" ?f]
      by (auto simp: ip32_restore)
    from sorted_sortByIP [OF this] rea(3) show ?thesis by (simp add: finish_def)
  qed
next
  show "map ip (sortByIP [rec 1 ''10.0.0.5'' 1 None 167772165 167772165,
                        rec 2 ''9.255.255.255'' 2 None 167772159 167772159,
                        rec 3 ''10.0.0.255'' 3 None 167772415 167772415])
      = [''9.255.255.255'', ''10.0.0.5'', ''10.0.0.255'']"
    by (simp add: sortByIP_def cmp_le_def sortIPCompare_def rec_def ipKey_examples)
qed

theorem sortIPCompare_orders_as_ip32_witness:
  "add cfg0 1 [] ''10.0.0.5'' None (Some ex0) False
     = Inr (Inserted, [rec 1 ''10.0.0.5'' 1 None 167772165 167772165])
   \<and> add cfg0 2 [rec 1 ''10.0.0.5'' 1 None 167772165 167772165]
        ''9.255.255.255'' None (Some ex0) False
     = Inr (Inserted, [rec 2 ''9.255.255.255'' 2 None 167772159 167772159,
                       rec 1 ''10.0.0.5'' 1 None 167772165 167772165])
   \<and> add cfg0 3 [rec 2 ''9.255.255.255'' 2 None 167772159 167772159,
                  rec 1 ''10.0.0.5'' 1 None 167772165 167772165]
        ''10.0.0.255'' None (Some ex0) False
     = Inr (Inserted, [rec 2 ''9.255.255.255'' 2 None 167772159 167772159,
                       rec 1 ''10.0.0.5'' 1 None 167772165 167772165,
                       rec 3 ''10.0.0.255'' 3 None 167772415 167772415])
   \<and> sorted (map (\<lambda>e. the (ip32 e))
        [rec 2 ''9.255.255.255'' 2 None 167772159 167772159,
         rec 1 ''10.0.0.5'' 1 None 167772165 167772165,
         rec 3 ''10.0.0.255'' 3 None 167772415 167772415])
   \<and> (\<exists>k. sortIPCompare (rec 2 ''9.255.255.255'' 2 None 167772159 167772159)
              (rec 1 ''10.0.0.5'' 1 None 167772165 167772165) = Some k \<and> k < 0)"
proof -
  let ?r5 = "rec 1 ''10.0.0.5'' 1 None 167772165 167772165"
  let ?r9 = "rec 2 ''9.255.255.255'' 2 None 167772159 167772159"
  let ?r255 = "rec 3 ''10.0.0.255'' 3 None 167772415 167772415"
  have mk5: "makeItem cfg0 1 ''10.0.0.5'' None (Some ex0)
      = Inr (Inr (rec 0 ''10.0.0.5'' 1 None 167772165 167772165))"
    by (simp add: makeItem_cfg0 subnetMask_examples)
  have mk9: "makeItem cfg0 2 ''9.255.255.255'' None (Some ex0)
      = Inr (Inr (rec 0 ''9.255.255.255'' 2 None 167772159 167772159))"
    by (simp add: makeItem_cfg0 subnetMask_examples)
  have mk255: "makeItem cfg0 3 ''10.0.0.255'' None (Some ex0)
      = Inr (Inr (rec 0 ''10.0.0.255'' 3 None 167772415 167772415))"
    by (simp add: makeItem_cfg0 subnetMask_examples)
  have a1: "add cfg0 1 [] ''10.0.0.5'' None (Some ex0) False = Inr (Inserted, [?r5])"
    by (simp add: add_makeItem [OF mk5] list_defs)
  have a2: "add cfg0 2 [?r5] ''9.255.255.255'' None (Some ex0) False
      = Inr (Inserted, [?r9, ?r5])"
    by (simp add: add_makeItem [OF mk9] list_defs ipKey_examples)
  have a3: "add cfg0 3 [?r9, ?r5] ''10.0.0.255'' None (Some ex0) False
      = Inr (Inserted, [?r9, ?r5, ?r255])"
    by (simp add: add_makeItem [OF mk255] list_defs ipKey_examples)
  have valid: "\<forall>e\<in>set [?r9, ?r5]. ip32 e \<noteq> None"
    by (simp add: ip32_examples)
  note inst = sortIPCompare_orders_as_ip32 [where u = ?r9 and v = ?r5 and x = 167772159
      and y = 167772165 and items = "[?r9, ?r5]" and c = cfg0 and now = 3
      and a = "''10.0.0.255''" and p = None and extra = "Some ex0" and oc = Inserted
      and items' = "[?r9, ?r5, ?r255]"]
  from inst valid a3 have s: "sorted (map (\<lambda>e. the (ip32 e)) [?r9, ?r5, ?r255])"
    by blast
  have v: "ip32 ?r9 = Some 167772159 \<and> ip32 ?r5 = Some 167772165"
    by (simp add: ip32_examples)
  with inst obtain k where "sortIPCompare ?r9 ?r5 = Some k"
    and "k < 0 \<longleftrightarrow> (167772159 :: nat) < 167772165"
    by blast
  then have "\<exists>k. sortIPCompare ?r9 ?r5 = Some k \<and> k < 0"
    by simp
  with a1 a2 a3 s show ?thesis by blast
qed

subsection \<open>An absent \<^verbatim>\<open>extra\<close> argument\<close>

text \<open>
  Claim C10: every call of \<^verbatim>\<open>add\<close>, also one without the optional \<^verbatim>\<open>extra\<close>
  argument, completes without a fault reaching the caller. The source reads
  \<^verbatim>\<open>extra.dtAdded\<close> (line 308) before it replaces a missing \<^verbatim>\<open>extra\<close> (line 329):
  whatever the address, the port scope and the collection, the call without \<^verbatim>\<open>extra\<close>
  throws a \<^verbatim>\<open>TypeError\<close>.
\<close>

theorem add_without_extra_throws:
  "add c now items a p None imp = Inl TypeError"
  by (simp add: add_def makeItem_def)

end
